theory Spec2Isabelle
  imports Main
begin

section \<open>Domain model\<close>

subsection \<open>domain/enums.ts\<close>

text \<open>
  \<^verbatim>\<open>TokenSource\<close> is a string enum. The controller builds a token with
  \<^verbatim>\<open>source: source as TokenSource\<close> from the request body, and \<^verbatim>\<open>canAllocateToken\<close>
  has a \<^verbatim>\<open>default\<close> branch, so at run time the field holds an arbitrary string. The
  model keeps the field a string and names the five members of the enum.
\<close>

definition TokenSource_ONLINE :: string where
  "TokenSource_ONLINE = ''ONLINE''"

definition TokenSource_WALK_IN :: string where
  "TokenSource_WALK_IN = ''WALK_IN''"

definition TokenSource_PRIORITY :: string where
  "TokenSource_PRIORITY = ''PRIORITY''"

definition TokenSource_FOLLOW_UP :: string where
  "TokenSource_FOLLOW_UP = ''FOLLOW_UP''"

definition TokenSource_EMERGENCY :: string where
  "TokenSource_EMERGENCY = ''EMERGENCY''"

datatype TokenStatus = CREATED | CONFIRMED | CHECKED_IN | COMPLETED | CANCELLED | NO_SHOW

text \<open>\<^verbatim>\<open>PriorityLevel\<close> is a numeric enum; higher is more urgent.\<close>

definition PriorityLevel_LOW :: int where
  "PriorityLevel_LOW = 20"

definition PriorityLevel_MEDIUM :: int where
  "PriorityLevel_MEDIUM = 40"

definition PriorityLevel_HIGH :: int where
  "PriorityLevel_HIGH = 60"

definition PriorityLevel_VERY_HIGH :: int where
  "PriorityLevel_VERY_HIGH = 80"

definition PriorityLevel_EMERGENCY :: int where
  "PriorityLevel_EMERGENCY = 100"

subsection \<open>domain/Token.ts\<close>

text \<open>
  The field \<^verbatim>\<open>id\<close> is \<open>id_tok\<close> and \<^verbatim>\<open>status\<close> is \<open>status_tok\<close> here (the
  first clashes with the identity function of HOL, the second with the field of
  \<^verbatim>\<open>AllocationResult\<close>). A \<^verbatim>\<open>Date\<close> is its number of milliseconds. A priority is a
  \<^verbatim>\<open>PriorityLevel\<close>, a member of a numeric enum, so an integer; the code only compares it.
\<close>

record Token =
  id_tok :: string
  patientId :: string
  doctorId :: string
  slotId :: string
  source :: string
  priority :: int
  status_tok :: TokenStatus
  createdAt :: int
  checkedInAt :: "int option"
  completedAt :: "int option"
  movable :: bool

subsection \<open>domain/Slot.ts\<close>

text \<open>
  \<^verbatim>\<open>max\<close> is \<open>max_cap\<close> here. The three numbers are whatever the store holds, so they
  are integers of either sign.
\<close>

record SlotCapacity =
  max_cap :: int
  emergencyBuffer :: int
  priorityBuffer :: int

record Slot =
  id_slot :: string
  doctorId_slot :: string
  startTime :: int
  endTime :: int
  capacity :: SlotCapacity
  tokens :: "Token list"
  waitlist :: "Token list"

section \<open>services/slotCapacity.ts\<close>

definition getTotalAllocated :: "Slot \<Rightarrow> int" where
  "getTotalAllocated slot = int (length (tokens slot))"

definition getEmergencyCount :: "Slot \<Rightarrow> int" where
  "getEmergencyCount slot =
     int (length (filter (\<lambda>token. source token = TokenSource_EMERGENCY) (tokens slot)))"

definition getPriorityCount :: "Slot \<Rightarrow> int" where
  "getPriorityCount slot =
     int (length (filter (\<lambda>token. source token = TokenSource_PRIORITY
                                  \<or> source token = TokenSource_FOLLOW_UP) (tokens slot)))"

definition getGeneralCount :: "Slot \<Rightarrow> int" where
  "getGeneralCount slot =
     int (length (filter (\<lambda>token. source token = TokenSource_ONLINE
                                  \<or> source token = TokenSource_WALK_IN) (tokens slot)))"

definition hasHardCapacity :: "Slot \<Rightarrow> bool" where
  "hasHardCapacity slot = (getTotalAllocated slot < max_cap (capacity slot))"

definition canConsumeEmergencyBuffer :: "Slot \<Rightarrow> bool" where
  "canConsumeEmergencyBuffer slot =
     (getEmergencyCount slot < emergencyBuffer (capacity slot))"

definition canConsumePriorityBuffer :: "Slot \<Rightarrow> bool" where
  "canConsumePriorityBuffer slot =
     (getPriorityCount slot < priorityBuffer (capacity slot))"

definition canAllocateToken :: "Slot \<Rightarrow> Token \<Rightarrow> bool" where
  "canAllocateToken slot token =
     (if \<not> hasHardCapacity slot then False
      else
        let totalAllocated = getTotalAllocated slot;
            emergencyCount = getEmergencyCount slot;
            priorityCount = getPriorityCount slot;
            reservedCapacity = emergencyBuffer (capacity slot) + priorityBuffer (capacity slot);
            generalCapacity = max_cap (capacity slot) - reservedCapacity;
            generalCount = getGeneralCount slot
        in
          if source token = TokenSource_EMERGENCY then
            canConsumeEmergencyBuffer slot \<or> generalCount < generalCapacity
          else if source token = TokenSource_PRIORITY
                  \<or> source token = TokenSource_FOLLOW_UP then
            canConsumePriorityBuffer slot \<or> generalCount < generalCapacity
          else if source token = TokenSource_ONLINE
                  \<or> source token = TokenSource_WALK_IN then
            generalCount < generalCapacity
          else False)"

section \<open>services/allocationEngine.ts\<close>

datatype AllocationStatus = ALLOCATED | WAITLISTED | REJECTED | DISPLACED

record AllocationResult =
  status :: AllocationStatus
  allocatedToken :: "Token option"
  displacedToken :: "Token option"
  reason :: "string option"

text \<open>
  The reason of a displacement interpolates the two priorities into a template string;
  \<open>show_int\<close> is the decimal rendering of an integer.
\<close>

fun show_nat :: "nat \<Rightarrow> string" where
  "show_nat n =
     (if n < 10 then [''0123456789'' ! n]
      else show_nat (n div 10) @ [''0123456789'' ! (n mod 10)])"

declare show_nat.simps [simp del]

definition show_int :: "int \<Rightarrow> string" where
  "show_int i = (if i < 0 then CHR ''-'' # show_nat (nat (- i)) else show_nat (nat i))"

text \<open>
  The \<^verbatim>\<open>for ... of\<close> loop of \<^verbatim>\<open>findLowestPriorityMovableToken\<close>: the second argument
  is \<^verbatim>\<open>lowestToken\<close>.
\<close>

fun lowest_loop :: "Token list \<Rightarrow> Token \<Rightarrow> Token" where
  "lowest_loop [] lowestToken = lowestToken"
| "lowest_loop (token # rest) lowestToken =
     lowest_loop rest (if priority token < priority lowestToken then token else lowestToken)"

definition findLowestPriorityMovableToken :: "Slot \<Rightarrow> Token option" where
  "findLowestPriorityMovableToken slot =
     (let eligibleTokens =
            filter (\<lambda>token. movable token = True \<and> source token \<noteq> TokenSource_EMERGENCY)
                   (tokens slot)
      in if length eligibleTokens = 0 then None
         else Some (lowest_loop eligibleTokens (eligibleTokens ! 0)))"

definition allocateTokenToSlot :: "Slot \<Rightarrow> Token \<Rightarrow> AllocationResult" where
  "allocateTokenToSlot slot token =
     (if canAllocateToken slot token then
        \<lparr> status = ALLOCATED, allocatedToken = Some token, displacedToken = None,
          reason = Some ''Slot has available capacity for this token'' \<rparr>
      else
        let lowestPriorityToken = findLowestPriorityMovableToken slot in
        if lowestPriorityToken \<noteq> None
           \<and> priority token > priority (the lowestPriorityToken) then
          \<lparr> status = DISPLACED, allocatedToken = Some token,
            displacedToken = lowestPriorityToken,
            reason = Some (''Token can displace lower-priority token (''
                           @ show_int (priority (the lowestPriorityToken)) @ '' < ''
                           @ show_int (priority token) @ '')'') \<rparr>
        else if priority token \<ge> PriorityLevel_MEDIUM then
          \<lparr> status = WAITLISTED, allocatedToken = Some token, displacedToken = None,
            reason = Some ''Slot full, token added to waitlist due to sufficient priority'' \<rparr>
        else
          \<lparr> status = REJECTED, allocatedToken = None, displacedToken = None,
            reason = Some ''Slot full and token priority too low for waitlist'' \<rparr>)"

section \<open>services/slotMutator.ts\<close>

text \<open>
  The mutator changes \<^verbatim>\<open>slot.tokens\<close> and \<^verbatim>\<open>slot.waitlist\<close> in place; the model
  returns the slot after the call. Tokens are never written to, only moved between the
  two arrays, and the store creates the two arrays of a slot separately.
\<close>

text \<open>\<^verbatim>\<open>Array.prototype.findIndex\<close>: the first index whose element satisfies the
  predicate, \<open>-1\<close> when there is none.\<close>

fun findIndex :: "('a \<Rightarrow> bool) \<Rightarrow> 'a list \<Rightarrow> int" where
  "findIndex P [] = - 1"
| "findIndex P (x # xs) =
     (if P x then 0
      else (let i = findIndex P xs in if i = - 1 then - 1 else i + 1))"

text \<open>\<^verbatim>\<open>xs.splice(i, 1)\<close> for an index in range: what is left of the array.\<close>

definition splice1 :: "'a list \<Rightarrow> nat \<Rightarrow> 'a list" where
  "splice1 xs i = take i xs @ drop (i + 1) xs"

text \<open>The removed token (\<^verbatim>\<open>undefined\<close> is \<open>None\<close>) and the array after the call.\<close>

definition removeTokenById :: "Token list \<Rightarrow> string \<Rightarrow> Token option \<times> Token list" where
  "removeTokenById toks tokenId =
     (let index = findIndex (\<lambda>t. id_tok t = tokenId) toks
      in if index = - 1 then (None, toks)
         else (Some (toks ! nat index), splice1 toks (nat index)))"

text \<open>The \<^verbatim>\<open>for\<close> loop of \<^verbatim>\<open>findHighestPriorityIndex\<close>, from index \<open>i\<close> on.\<close>

function highest_loop :: "Token list \<Rightarrow> nat \<Rightarrow> nat \<Rightarrow> nat" where
  "highest_loop wl i highestIndex =
     (if i < length wl then
        highest_loop wl (i + 1)
          (if priority (wl ! i) > priority (wl ! highestIndex) then i else highestIndex)
      else highestIndex)"
  by pat_completeness auto
termination
  by (relation "measure (\<lambda>(wl, i, h). length wl - i)") auto

declare highest_loop.simps [simp del]

definition findHighestPriorityIndex :: "Token list \<Rightarrow> int" where
  "findHighestPriorityIndex wl =
     (if length wl = 0 then - 1 else int (highest_loop wl 1 0))"

definition promoteFromWaitlist :: "Slot \<Rightarrow> Slot" where
  "promoteFromWaitlist slot =
     (let highestIndex = findHighestPriorityIndex (waitlist slot)
      in if highestIndex = - 1 then slot
         else
           let promoted = waitlist slot ! nat highestIndex
           in slot \<lparr> waitlist := splice1 (waitlist slot) (nat highestIndex),
                     tokens := tokens slot @ [promoted] \<rparr>)"

definition applyAllocationResult :: "Slot \<Rightarrow> AllocationResult \<Rightarrow> Slot" where
  "applyAllocationResult slot result =
     (case status result of
        ALLOCATED \<Rightarrow>
          (case allocatedToken result of
             Some t \<Rightarrow> slot \<lparr> tokens := tokens slot @ [t] \<rparr>
           | None \<Rightarrow> slot)
      | DISPLACED \<Rightarrow>
          (case (displacedToken result, allocatedToken result) of
             (Some d, Some t) \<Rightarrow>
               slot \<lparr> tokens := snd (removeTokenById (tokens slot) (id_tok d)) @ [t],
                      waitlist := waitlist slot @ [d] \<rparr>
           | _ \<Rightarrow> slot)
      | WAITLISTED \<Rightarrow>
          (case allocatedToken result of
             Some t \<Rightarrow> slot \<lparr> waitlist := waitlist slot @ [t] \<rparr>
           | None \<Rightarrow> slot)
      | REJECTED \<Rightarrow> slot)"

definition cancelToken :: "Slot \<Rightarrow> string \<Rightarrow> Slot" where
  "cancelToken slot tokenId =
     (let (removed, toks) = removeTokenById (tokens slot) tokenId
      in if removed \<noteq> None then promoteFromWaitlist (slot \<lparr> tokens := toks \<rparr>)
         else slot)"

definition markNoShow :: "Slot \<Rightarrow> string \<Rightarrow> Slot" where
  "markNoShow slot tokenId = cancelToken slot tokenId"

section \<open>Fixtures of the test suites\<close>

text \<open>\<^verbatim>\<open>createTestSlot\<close> and \<^verbatim>\<open>createTestToken\<close> of tests/allocationEngine.test.ts and
  tests/slotMutator.test.ts, with \<^verbatim>\<open>new Date()\<close> taken as \<open>0\<close>.\<close>

definition createTestSlot :: "Token list \<Rightarrow> Token list \<Rightarrow> SlotCapacity \<Rightarrow> Slot" where
  "createTestSlot toks wl cap =
     \<lparr> id_slot = ''test-slot'', doctorId_slot = ''test-doctor'', startTime = 0, endTime = 0,
       capacity = cap, tokens = toks, waitlist = wl \<rparr>"

definition defaultCapacity :: SlotCapacity where
  "defaultCapacity = \<lparr> max_cap = 5, emergencyBuffer = 1, priorityBuffer = 1 \<rparr>"

definition createTestToken :: "string \<Rightarrow> string \<Rightarrow> int \<Rightarrow> bool \<Rightarrow> Token" where
  "createTestToken i src prio mv =
     \<lparr> id_tok = i, patientId = ''patient-1'', doctorId = ''test-doctor'',
       slotId = ''test-slot'', source = src, priority = prio, status_tok = CREATED,
       createdAt = 0, checkedInAt = None, completedAt = None, movable = mv \<rparr>"

text \<open>The slots and tokens at which the properties below are evaluated.\<close>

definition emergencyToken :: "string \<Rightarrow> Token" where
  "emergencyToken i = createTestToken i TokenSource_EMERGENCY PriorityLevel_EMERGENCY False"

definition onlineToken :: "string \<Rightarrow> int \<Rightarrow> Token" where
  "onlineToken i prio = createTestToken i TokenSource_ONLINE prio True"

definition walkInToken :: "string \<Rightarrow> int \<Rightarrow> Token" where
  "walkInToken i prio = createTestToken i TokenSource_WALK_IN prio True"

definition vipToken :: Token where
  "vipToken = createTestToken ''v1'' ''VIP'' PriorityLevel_HIGH True"

definition slot_empty :: Slot where
  "slot_empty = createTestSlot [] [] defaultCapacity"

definition slot_all_emergency :: Slot where
  "slot_all_emergency =
     createTestSlot
       [emergencyToken ''e1'', emergencyToken ''e2'', emergencyToken ''e3'',
        emergencyToken ''e4'', emergencyToken ''e5'']
       [] defaultCapacity"

definition slot_one_emergency :: Slot where
  "slot_one_emergency = createTestSlot [emergencyToken ''e1''] [] defaultCapacity"

definition slot_oversubscribed :: Slot where
  "slot_oversubscribed =
     createTestSlot [] [] \<lparr> max_cap = 2, emergencyBuffer = 2, priorityBuffer = 1 \<rparr>"

definition slot_general_full :: Slot where
  "slot_general_full =
     createTestSlot
       [onlineToken ''t1'' PriorityLevel_MEDIUM, onlineToken ''t2'' PriorityLevel_LOW,
        onlineToken ''t3'' PriorityLevel_MEDIUM]
       [] defaultCapacity"

definition slot_with_waitlist :: Slot where
  "slot_with_waitlist =
     createTestSlot
       [onlineToken ''active'' PriorityLevel_MEDIUM]
       [walkInToken ''wait-low'' PriorityLevel_LOW,
        walkInToken ''wait-high'' PriorityLevel_VERY_HIGH]
       defaultCapacity"

definition slot_emergency_only :: Slot where
  "slot_emergency_only =
     createTestSlot [emergencyToken ''e1''] []
       \<lparr> max_cap = 1, emergencyBuffer = 1, priorityBuffer = 0 \<rparr>"

definition slot_one_low :: Slot where
  "slot_one_low = createTestSlot [onlineToken ''t2'' PriorityLevel_LOW] [] defaultCapacity"

definition slot_t1_t2 :: Slot where
  "slot_t1_t2 =
     createTestSlot [onlineToken ''t1'' PriorityLevel_LOW]
       [onlineToken ''t2'' PriorityLevel_MEDIUM] defaultCapacity"

definition displace_t1_by_t3 :: AllocationResult where
  "displace_t1_by_t3 =
     \<lparr> status = DISPLACED, allocatedToken = Some (onlineToken ''t3'' PriorityLevel_HIGH),
       displacedToken = Some (onlineToken ''t1'' PriorityLevel_LOW), reason = None \<rparr>"

section \<open>Vocabulary of the properties\<close>

text \<open>A displacement candidate: the filter of \<^verbatim>\<open>findLowestPriorityMovableToken\<close>.\<close>

definition displaceable :: "Token \<Rightarrow> bool" where
  "displaceable t = (movable t \<and> source t \<noteq> TokenSource_EMERGENCY)"

text \<open>The hard ceiling of the slot: \<^verbatim>\<open>tokens.length <= capacity.max\<close>.\<close>

definition within_max :: "Slot \<Rightarrow> bool" where
  "within_max slot = (getTotalAllocated slot \<le> max_cap (capacity slot))"

text \<open>The identifiers held by a slot, occupants first, and the absence of duplicates
  among them.\<close>

definition slot_ids :: "Slot \<Rightarrow> string list" where
  "slot_ids slot = map id_tok (tokens slot) @ map id_tok (waitlist slot)"

definition no_duplicates :: "Slot \<Rightarrow> bool" where
  "no_duplicates slot = distinct (slot_ids slot)"

text \<open>The calls a client can make on the mutator, and a sequence of them run from left
  to right.\<close>

datatype MutatorCall = Apply AllocationResult | Cancel string | NoShow string

fun call :: "Slot \<Rightarrow> MutatorCall \<Rightarrow> Slot" where
  "call slot (Apply result) = applyAllocationResult slot result"
| "call slot (Cancel tokenId) = cancelToken slot tokenId"
| "call slot (NoShow tokenId) = markNoShow slot tokenId"

fun calls :: "Slot \<Rightarrow> MutatorCall list \<Rightarrow> Slot" where
  "calls slot [] = slot"
| "calls slot (c # cs) = calls (call slot c) cs"

text \<open>
  A result brings only new identifiers to a slot: the incoming token is in neither array,
  and a displaced token is not the incoming one and not already waiting. A result that
  \<^verbatim>\<open>applyAllocationResult\<close> ignores brings nothing.
\<close>

definition result_fresh :: "Slot \<Rightarrow> AllocationResult \<Rightarrow> bool" where
  "result_fresh slot result =
     (case status result of
        ALLOCATED \<Rightarrow>
          (case allocatedToken result of
             Some t \<Rightarrow> id_tok t \<notin> set (slot_ids slot)
           | None \<Rightarrow> True)
      | DISPLACED \<Rightarrow>
          (case (displacedToken result, allocatedToken result) of
             (Some d, Some t) \<Rightarrow>
               id_tok t \<notin> set (slot_ids slot) \<and> id_tok d \<noteq> id_tok t
               \<and> id_tok d \<notin> set (map id_tok (waitlist slot))
           | _ \<Rightarrow> True)
      | WAITLISTED \<Rightarrow>
          (case allocatedToken result of
             Some t \<Rightarrow> id_tok t \<notin> set (slot_ids slot)
           | None \<Rightarrow> True)
      | REJECTED \<Rightarrow> True)"

fun call_fresh :: "Slot \<Rightarrow> MutatorCall \<Rightarrow> bool" where
  "call_fresh slot (Apply result) = result_fresh slot result"
| "call_fresh slot (Cancel tokenId) = True"
| "call_fresh slot (NoShow tokenId) = True"

fun calls_fresh :: "Slot \<Rightarrow> MutatorCall list \<Rightarrow> bool" where
  "calls_fresh slot [] = True"
| "calls_fresh slot (c # cs) = (call_fresh slot c \<and> calls_fresh (call slot c) cs)"

section \<open>Unfolding the enums and the fixtures\<close>

lemmas TokenSource_defs =
  TokenSource_ONLINE_def TokenSource_WALK_IN_def TokenSource_PRIORITY_def
  TokenSource_FOLLOW_UP_def TokenSource_EMERGENCY_def

lemmas PriorityLevel_defs =
  PriorityLevel_LOW_def PriorityLevel_MEDIUM_def PriorityLevel_HIGH_def
  PriorityLevel_VERY_HIGH_def PriorityLevel_EMERGENCY_def

lemmas fixture_defs =
  createTestSlot_def createTestToken_def defaultCapacity_def emergencyToken_def
  onlineToken_def walkInToken_def vipToken_def slot_empty_def slot_all_emergency_def
  slot_one_emergency_def slot_oversubscribed_def slot_general_full_def
  slot_with_waitlist_def slot_emergency_only_def slot_one_low_def slot_t1_t2_def
  displace_t1_by_t3_def

lemmas capacity_defs =
  canAllocateToken_def hasHardCapacity_def canConsumeEmergencyBuffer_def
  canConsumePriorityBuffer_def getTotalAllocated_def getEmergencyCount_def
  getPriorityCount_def getGeneralCount_def

section \<open>Facts about the capacity evaluator\<close>

lemma getGeneralCount_nonneg: "0 \<le> getGeneralCount slot"
  by (simp add: getGeneralCount_def)

section \<open>Facts about the displacement candidate\<close>

lemma lowest_loop_cases:
  "(lowest_loop xs l = l \<and> (\<forall>x\<in>set xs. priority l \<le> priority x))
   \<or> (\<exists>pre post. xs = pre @ lowest_loop xs l # post
         \<and> (\<forall>x\<in>set pre. priority (lowest_loop xs l) < priority x)
         \<and> priority (lowest_loop xs l) < priority l
         \<and> (\<forall>x\<in>set post. priority (lowest_loop xs l) \<le> priority x))"
proof (induction xs arbitrary: l)
  case Nil
  then show ?case by simp
next
  case (Cons token rest)
  let ?l' = "if priority token < priority l then token else l"
  let ?r = "lowest_loop rest ?l'"
  have r: "lowest_loop (token # rest) l = ?r" by simp
  from Cons [of ?l'] consider
    (keep) "?r = ?l'" "\<forall>x\<in>set rest. priority ?l' \<le> priority x"
  | (later) pre post where "rest = pre @ ?r # post"
      "\<forall>x\<in>set pre. priority ?r < priority x" "priority ?r < priority ?l'"
      "\<forall>x\<in>set post. priority ?r \<le> priority x"
    by blast
  then show ?case
  proof cases
    case keep
    show ?thesis
    proof (cases "priority token < priority l")
      case True
      with keep have "token # rest = [] @ ?r # rest"
        "\<forall>x\<in>set rest. priority ?r \<le> priority x" "priority ?r < priority l"
        by simp_all
      then show ?thesis unfolding r by (metis empty_iff set_empty)
    next
      case False
      with keep show ?thesis unfolding r by auto
    qed
  next
    case later
    have "token # rest = (token # pre) @ ?r # post" using later(1) by simp
    moreover have "\<forall>x\<in>set (token # pre). priority ?r < priority x"
      using later(2,3) by (auto split: if_splits)
    moreover have "priority ?r < priority l"
      using later(3) by (auto split: if_splits)
    ultimately show ?thesis unfolding r using later(4) by blast
  qed
qed

lemma filter_eq_append_Cons:
  "filter P ys = as @ r # bs \<Longrightarrow>
     \<exists>us vs. ys = us @ r # vs \<and> filter P us = as \<and> filter P vs = bs \<and> P r"
proof (induction ys arbitrary: as)
  case Nil
  then show ?case by simp
next
  case (Cons y ys)
  show ?case
  proof (cases "P y")
    case False
    with Cons.prems have "filter P ys = as @ r # bs" by simp
    from Cons.IH [OF this] obtain us vs where
      "ys = us @ r # vs" "filter P us = as" "filter P vs = bs" "P r" by blast
    with False have "y # ys = (y # us) @ r # vs \<and> filter P (y # us) = as
        \<and> filter P vs = bs \<and> P r" by simp
    then show ?thesis by blast
  next
    case True
    show ?thesis
    proof (cases as)
      case Nil
      with True Cons.prems have "y # ys = [] @ r # ys \<and> filter P [] = as
        \<and> filter P ys = bs \<and> P r" by simp
      then show ?thesis by blast
    next
      case (Cons a as')
      with True Cons.prems have ya: "y = a" and "filter P ys = as' @ r # bs" by simp_all
      from Cons.IH [OF this(2)] obtain us vs where
        "ys = us @ r # vs" "filter P us = as'" "filter P vs = bs" "P r" by blast
      with True Cons ya have "y # ys = (y # us) @ r # vs \<and> filter P (y # us) = as
        \<and> filter P vs = bs \<and> P r" by simp
      then show ?thesis by blast
    qed
  qed
qed

lemma findLowest_None:
  "findLowestPriorityMovableToken slot = None \<longleftrightarrow> (\<forall>x\<in>set (tokens slot). \<not> displaceable x)"
  by (auto simp: findLowestPriorityMovableToken_def Let_def displaceable_def filter_empty_conv)

lemma findLowest_Some:
  assumes "findLowestPriorityMovableToken slot = Some d"
  shows "\<exists>pre post. tokens slot = pre @ d # post \<and> displaceable d
           \<and> (\<forall>x\<in>set pre. displaceable x \<longrightarrow> priority d < priority x)
           \<and> (\<forall>x\<in>set post. displaceable x \<longrightarrow> priority d \<le> priority x)"
proof -
  let ?el = "filter displaceable (tokens slot)"
  have el: "filter (\<lambda>token. movable token = True \<and> source token \<noteq> TokenSource_EMERGENCY)
              (tokens slot) = ?el"
    by (rule filter_cong) (auto simp: displaceable_def)
  from assms have ne: "?el \<noteq> []" and d: "d = lowest_loop ?el (?el ! 0)"
    unfolding findLowestPriorityMovableToken_def el by (auto simp: Let_def split: if_splits)
  then obtain e es where ees: "?el = e # es" by (cases ?el) auto
  with d have d': "d = lowest_loop es e" by simp
  from lowest_loop_cases [of es e] consider
    (first) "d = e" "\<forall>x\<in>set es. priority e \<le> priority x"
  | (later) pre post where "es = pre @ d # post"
      "\<forall>x\<in>set pre. priority d < priority x" "priority d < priority e"
      "\<forall>x\<in>set post. priority d \<le> priority x"
    unfolding d' by blast
  then show ?thesis
  proof cases
    case first
    from ees have "filter displaceable (tokens slot) = [] @ e # es" by simp
    from filter_eq_append_Cons [OF this] obtain us vs where
      "tokens slot = us @ e # vs" "filter displaceable us = []"
      "filter displaceable vs = es" "displaceable e" by blast
    with first have "tokens slot = us @ d # vs \<and> displaceable d
           \<and> (\<forall>x\<in>set us. displaceable x \<longrightarrow> priority d < priority x)
           \<and> (\<forall>x\<in>set vs. displaceable x \<longrightarrow> priority d \<le> priority x)"
      by (auto simp: filter_empty_conv)
    then show ?thesis by blast
  next
    case later
    from ees later(1) have "filter displaceable (tokens slot) = (e # pre) @ d # post" by simp
    from filter_eq_append_Cons [OF this] obtain us vs where
      uv: "tokens slot = us @ d # vs" "filter displaceable us = e # pre"
      "filter displaceable vs = post" "displaceable d" by blast
    have "\<forall>x\<in>set us. displaceable x \<longrightarrow> priority d < priority x"
    proof (intro ballI impI)
      fix x assume "x \<in> set us" "displaceable x"
      then have "x \<in> set (filter displaceable us)" by simp
      then have "x = e \<or> x \<in> set pre" unfolding uv(2) by simp
      then show "priority d < priority x" using later(2,3) by auto
    qed
    moreover have "\<forall>x\<in>set vs. displaceable x \<longrightarrow> priority d \<le> priority x"
    proof (intro ballI impI)
      fix x assume "x \<in> set vs" "displaceable x"
      then have "x \<in> set (filter displaceable vs)" by simp
      then show "priority d \<le> priority x" unfolding uv(3) using later(4) by simp
    qed
    ultimately show ?thesis using uv(1,4) by blast
  qed
qed


section \<open>Facts about removal and promotion\<close>

lemma findIndex_ge: "- 1 \<le> findIndex P xs"
  by (induction xs) (auto simp: Let_def)

lemma findIndex_none: "findIndex P xs = - 1 \<longleftrightarrow> (\<forall>x\<in>set xs. \<not> P x)"
proof (induction xs)
  case Nil
  then show ?case by simp
next
  case (Cons a xs)
  then show ?case using findIndex_ge [of P xs] by (auto simp: Let_def)
qed

lemma findIndex_first:
  "(\<forall>y\<in>set a. \<not> P y) \<Longrightarrow> P x \<Longrightarrow> findIndex P (a @ x # b) = int (length a)"
proof (induction a)
  case Nil
  then show ?case by simp
next
  case (Cons y a)
  then show ?case by (simp add: Let_def)
qed

lemma splice1_middle: "splice1 (a @ x # b) (length a) = a @ b"
  by (simp add: splice1_def)

lemma removeTokenById_absent:
  "tokenId \<notin> id_tok ` set toks \<Longrightarrow> removeTokenById toks tokenId = (None, toks)"
proof -
  assume "tokenId \<notin> id_tok ` set toks"
  then have "findIndex (\<lambda>t. id_tok t = tokenId) toks = - 1"
    by (auto simp: findIndex_none)
  then show ?thesis by (simp add: removeTokenById_def)
qed

lemma removeTokenById_first:
  assumes "\<forall>y\<in>set a. id_tok y \<noteq> tokenId" and "id_tok t = tokenId"
  shows "removeTokenById (a @ t # b) tokenId = (Some t, a @ b)"
proof -
  have "findIndex (\<lambda>t. id_tok t = tokenId) (a @ t # b) = int (length a)"
    using assms by (intro findIndex_first) auto
  then show ?thesis
    by (simp add: removeTokenById_def splice1_middle)
qed

lemma removeTokenById_present:
  assumes "tokenId \<in> id_tok ` set toks"
  shows "\<exists>a t b. toks = a @ t # b \<and> id_tok t = tokenId
           \<and> (\<forall>y\<in>set a. id_tok y \<noteq> tokenId)
           \<and> removeTokenById toks tokenId = (Some t, a @ b)"
proof -
  from assms have "\<exists>x\<in>set toks. id_tok x = tokenId" by auto
  from split_list_first_prop [OF this] obtain a t b where
    s: "toks = a @ t # b" "id_tok t = tokenId" "\<forall>y\<in>set a. id_tok y \<noteq> tokenId"
    by blast
  with removeTokenById_first [OF s(3) s(2), of b] show ?thesis by blast
qed

lemma highest_loop_inv:
  assumes "h < i" and "i \<le> length wl"
    and "\<forall>j<i. priority (wl ! j) \<le> priority (wl ! h)"
    and "\<forall>j<h. priority (wl ! j) < priority (wl ! h)"
  shows "highest_loop wl i h < length wl
         \<and> (\<forall>j<length wl. priority (wl ! j) \<le> priority (wl ! highest_loop wl i h))
         \<and> (\<forall>j<highest_loop wl i h. priority (wl ! j) < priority (wl ! highest_loop wl i h))"
  using assms
proof (induction wl i h rule: highest_loop.induct)
  case (1 wl i h)
  show ?case
  proof (cases "i < length wl")
    case False
    then have stop: "highest_loop wl i h = h"
      by (simp add: highest_loop.simps [of wl i h])
    from False "1.prems"(2) have "i = length wl" by simp
    with "1.prems" show ?thesis unfolding stop by simp
  next
    case True
    let ?h' = "if priority (wl ! h) < priority (wl ! i) then i else h"
    have a: "?h' < i + 1" using "1.prems"(1) by simp
    have b: "i + 1 \<le> length wl" using True by simp
    have c: "\<forall>j<i + 1. priority (wl ! j) \<le> priority (wl ! ?h')"
    proof (intro allI impI)
      fix j assume "j < i + 1"
      then have "j < i \<or> j = i" by arith
      then show "priority (wl ! j) \<le> priority (wl ! ?h')"
        using "1.prems"(3) by (auto dest!: spec [of _ j])
    qed
    have d: "\<forall>j<?h'. priority (wl ! j) < priority (wl ! ?h')"
    proof (intro allI impI)
      fix j assume j: "j < ?h'"
      show "priority (wl ! j) < priority (wl ! ?h')"
      proof (cases "priority (wl ! h) < priority (wl ! i)")
        case True
        with j have "j < i" by simp
        with "1.prems"(3) have "priority (wl ! j) \<le> priority (wl ! h)" by simp
        with True show ?thesis by simp
      next
        case False
        with j "1.prems"(4) show ?thesis by simp
      qed
    qed
    from "1.IH" [OF True a b c d] True show ?thesis
      by (simp add: highest_loop.simps [of wl i h])
  qed
qed

lemma findHighestPriorityIndex_split:
  assumes "wl \<noteq> []"
  shows "\<exists>pre w post. wl = pre @ w # post
           \<and> findHighestPriorityIndex wl = int (length pre)
           \<and> (\<forall>x\<in>set pre. priority x < priority w)
           \<and> (\<forall>x\<in>set post. priority x \<le> priority w)"
proof -
  let ?r = "highest_loop wl 1 0"
  from assms have "1 \<le> length wl" by (cases wl) auto
  moreover have "\<forall>j<1::nat. priority (wl ! j) \<le> priority (wl ! 0)" by simp
  ultimately have r: "?r < length wl"
    "\<forall>j<length wl. priority (wl ! j) \<le> priority (wl ! ?r)"
    "\<forall>j<?r. priority (wl ! j) < priority (wl ! ?r)"
    using highest_loop_inv [of 0 1 wl] by simp_all
  have split: "wl = take ?r wl @ wl ! ?r # drop (Suc ?r) wl"
    using r(1) by (rule id_take_nth_drop)
  have len: "length (take ?r wl) = ?r" using r(1) by simp
  have pre: "\<forall>x\<in>set (take ?r wl). priority x < priority (wl ! ?r)"
  proof
    fix x assume "x \<in> set (take ?r wl)"
    then obtain j where "j < ?r" "x = wl ! j"
      using r(1) by (auto simp: in_set_conv_nth)
    with r(3) show "priority x < priority (wl ! ?r)" by simp
  qed
  have post: "\<forall>x\<in>set (drop (Suc ?r) wl). priority x \<le> priority (wl ! ?r)"
  proof
    fix x assume "x \<in> set (drop (Suc ?r) wl)"
    then have "x \<in> set wl" by (rule in_set_dropD)
    then obtain j where "j < length wl" "x = wl ! j" by (auto simp: in_set_conv_nth)
    with r(2) show "priority x \<le> priority (wl ! ?r)" by simp
  qed
  have "findHighestPriorityIndex wl = int (length (take ?r wl))"
    using assms len by (simp add: findHighestPriorityIndex_def)
  with split pre post show ?thesis by blast
qed

lemma promoteFromWaitlist_empty:
  "waitlist slot = [] \<Longrightarrow> promoteFromWaitlist slot = slot"
  by (simp add: promoteFromWaitlist_def findHighestPriorityIndex_def)

lemma promoteFromWaitlist_split:
  assumes "waitlist slot \<noteq> []"
  shows "\<exists>pre w post. waitlist slot = pre @ w # post
           \<and> (\<forall>x\<in>set pre. priority x < priority w)
           \<and> (\<forall>x\<in>set post. priority x \<le> priority w)
           \<and> promoteFromWaitlist slot
               = slot \<lparr> waitlist := pre @ post, tokens := tokens slot @ [w] \<rparr>"
proof -
  from findHighestPriorityIndex_split [OF assms] obtain pre w post where
    s: "waitlist slot = pre @ w # post"
    "findHighestPriorityIndex (waitlist slot) = int (length pre)"
    "\<forall>x\<in>set pre. priority x < priority w" "\<forall>x\<in>set post. priority x \<le> priority w"
    by blast
  have "promoteFromWaitlist slot
          = slot \<lparr> waitlist := pre @ post, tokens := tokens slot @ [w] \<rparr>"
    unfolding promoteFromWaitlist_def s(2) Let_def
    by (simp add: s(1) splice1_middle)
  with s show ?thesis by blast
qed

section \<open>Facts about the decision\<close>

lemma findLowest_beats_iff:
  "(\<exists>d. findLowestPriorityMovableToken slot = Some d \<and> priority d < priority token)
   \<longleftrightarrow> (\<exists>x\<in>set (tokens slot). displaceable x \<and> priority x < priority token)"
proof
  assume "\<exists>d. findLowestPriorityMovableToken slot = Some d \<and> priority d < priority token"
  then obtain d where d: "findLowestPriorityMovableToken slot = Some d"
    "priority d < priority token" by blast
  from findLowest_Some [OF d(1)] have "d \<in> set (tokens slot)" "displaceable d" by auto
  with d(2) show "\<exists>x\<in>set (tokens slot). displaceable x \<and> priority x < priority token"
    by blast
next
  assume "\<exists>x\<in>set (tokens slot). displaceable x \<and> priority x < priority token"
  then obtain x where x: "x \<in> set (tokens slot)" "displaceable x"
    "priority x < priority token" by blast
  then have "findLowestPriorityMovableToken slot \<noteq> None"
    by (auto simp: findLowest_None)
  then obtain d where d: "findLowestPriorityMovableToken slot = Some d" by auto
  from findLowest_Some [OF d] obtain pre post where
    s: "tokens slot = pre @ d # post"
    "\<forall>x\<in>set pre. displaceable x \<longrightarrow> priority d < priority x"
    "\<forall>x\<in>set post. displaceable x \<longrightarrow> priority d \<le> priority x" by blast
  from x(1) have "x \<in> set pre \<or> x = d \<or> x \<in> set post" unfolding s(1) by auto
  with s(2,3) x(2) have "priority d \<le> priority x" by fastforce
  with x(3) d show "\<exists>d. findLowestPriorityMovableToken slot = Some d
      \<and> priority d < priority token" by auto
qed

lemma status_DISPLACED_iff:
  "status (allocateTokenToSlot slot token) = DISPLACED
   \<longleftrightarrow> \<not> canAllocateToken slot token
       \<and> (\<exists>d. findLowestPriorityMovableToken slot = Some d \<and> priority d < priority token)"
  by (auto simp: allocateTokenToSlot_def Let_def)

lemma status_ALLOCATED_iff:
  "status (allocateTokenToSlot slot token) = ALLOCATED \<longleftrightarrow> canAllocateToken slot token"
  by (auto simp: allocateTokenToSlot_def Let_def)

section \<open>Facts about the size of the occupant array\<close>

lemma removeTokenById_length:
  "length (snd (removeTokenById toks tokenId))
     = (if tokenId \<in> id_tok ` set toks then length toks - 1 else length toks)"
proof (cases "tokenId \<in> id_tok ` set toks")
  case True
  from removeTokenById_present [OF True] show ?thesis using True by auto
next
  case False
  then show ?thesis by (simp add: removeTokenById_absent)
qed

lemma promoteFromWaitlist_length:
  "length (tokens (promoteFromWaitlist slot)) \<le> length (tokens slot) + 1"
proof (cases "waitlist slot = []")
  case True
  then show ?thesis by (simp add: promoteFromWaitlist_empty)
next
  case False
  from promoteFromWaitlist_split [OF False] show ?thesis by auto
qed

lemma promoteFromWaitlist_capacity:
  "capacity (promoteFromWaitlist slot) = capacity slot"
  by (simp add: promoteFromWaitlist_def Let_def)

lemma cancelToken_capacity: "capacity (cancelToken slot tokenId) = capacity slot"
  by (simp add: cancelToken_def promoteFromWaitlist_capacity split: prod.splits)

lemma applyAllocationResult_capacity:
  "capacity (applyAllocationResult slot result) = capacity slot"
  by (simp add: applyAllocationResult_def
           split: AllocationStatus.splits option.splits prod.splits)

lemma cancelToken_removed:
  "removeTokenById (tokens slot) tokenId = (Some t, rest) \<Longrightarrow>
     cancelToken slot tokenId = promoteFromWaitlist (slot \<lparr> tokens := rest \<rparr>)"
  by (simp add: cancelToken_def)

lemma cancelToken_length:
  "length (tokens (cancelToken slot tokenId)) \<le> length (tokens slot)"
proof (cases "tokenId \<in> id_tok ` set (tokens slot)")
  case False
  then show ?thesis by (simp add: cancelToken_def removeTokenById_absent)
next
  case True
  from removeTokenById_present [OF True] obtain a t b where
    r: "tokens slot = a @ t # b" "removeTokenById (tokens slot) tokenId = (Some t, a @ b)"
    by blast
  have "length (tokens (promoteFromWaitlist (slot \<lparr> tokens := a @ b \<rparr>)))
          \<le> length (a @ b) + 1"
    using promoteFromWaitlist_length [of "slot \<lparr> tokens := a @ b \<rparr>"] by simp
  then show ?thesis unfolding cancelToken_removed [OF r(2)] by (simp add: r(1))
qed

lemma apply_decision_length:
  assumes "within_max slot"
  shows "int (length (tokens (applyAllocationResult slot (allocateTokenToSlot slot token))))
           \<le> max_cap (capacity slot)"
proof (cases "status (allocateTokenToSlot slot token)")
  case ALLOCATED
  then have c: "canAllocateToken slot token" by (simp add: status_ALLOCATED_iff)
  then have "hasHardCapacity slot" by (auto simp: canAllocateToken_def split: if_splits)
  then have "int (length (tokens slot)) < max_cap (capacity slot)"
    by (simp add: hasHardCapacity_def getTotalAllocated_def)
  with c show ?thesis by (simp add: applyAllocationResult_def allocateTokenToSlot_def)
next
  case WAITLISTED
  with assms show ?thesis
    by (auto simp: applyAllocationResult_def within_max_def getTotalAllocated_def
             split: option.splits)
next
  case REJECTED
  with assms show ?thesis
    by (simp add: applyAllocationResult_def within_max_def getTotalAllocated_def)
next
  case DISPLACED
  then obtain d where d: "\<not> canAllocateToken slot token"
    "findLowestPriorityMovableToken slot = Some d" "priority d < priority token"
    by (auto simp: status_DISPLACED_iff)
  then have res: "displacedToken (allocateTokenToSlot slot token) = Some d"
    "allocatedToken (allocateTokenToSlot slot token) = Some token"
    by (simp_all add: allocateTokenToSlot_def)
  from findLowest_Some [OF d(2)] have "id_tok d \<in> id_tok ` set (tokens slot)" by auto
  then have "length (snd (removeTokenById (tokens slot) (id_tok d))) = length (tokens slot) - 1"
    by (simp add: removeTokenById_length)
  moreover from findLowest_Some [OF d(2)] have "0 < length (tokens slot)" by auto
  ultimately have "length (snd (removeTokenById (tokens slot) (id_tok d)) @ [token])
      = length (tokens slot)" by simp
  with assms show ?thesis
    by (simp add: applyAllocationResult_def DISPLACED res within_max_def
        getTotalAllocated_def del: length_append)
qed

section \<open>Facts about the identifiers held by a slot\<close>

lemma distinct_drop_middle:
  "distinct (as @ x # bs @ ws) \<Longrightarrow> distinct (as @ bs @ ws)"
  by simp

lemma distinct_move_middle:
  "distinct (ts @ pre @ w # post) \<Longrightarrow> distinct (ts @ w # pre @ post)"
  by auto

lemma distinct_displace:
  assumes "distinct (ts @ ws)" and "distinct rs" and "set rs = set ts - {dd}"
    and "it \<notin> set (ts @ ws)" and "dd \<noteq> it" and "dd \<notin> set ws"
  shows "distinct (rs @ it # ws @ [dd])"
  using assms by auto

lemma distinct_push:
  "distinct (ts @ ws) \<Longrightarrow> it \<notin> set (ts @ ws) \<Longrightarrow>
     distinct (ts @ it # ws) \<and> distinct (ts @ ws @ [it])"
  by auto

lemma no_duplicates_promote:
  assumes "no_duplicates slot"
  shows "no_duplicates (promoteFromWaitlist slot)"
proof (cases "waitlist slot = []")
  case True
  with assms show ?thesis by (simp add: promoteFromWaitlist_empty)
next
  case False
  from promoteFromWaitlist_split [OF False] obtain pre w post where
    p: "waitlist slot = pre @ w # post"
    "promoteFromWaitlist slot = slot \<lparr> waitlist := pre @ post, tokens := tokens slot @ [w] \<rparr>"
    by blast
  from assms have "distinct (map id_tok (tokens slot) @ map id_tok pre
                             @ id_tok w # map id_tok post)"
    by (simp add: no_duplicates_def slot_ids_def p(1))
  then have "distinct (map id_tok (tokens slot) @ id_tok w # map id_tok pre @ map id_tok post)"
    by (rule distinct_move_middle)
  then show ?thesis by (simp add: no_duplicates_def slot_ids_def p(2))
qed

lemma no_duplicates_cancelToken:
  assumes "no_duplicates slot"
  shows "no_duplicates (cancelToken slot tokenId)"
proof (cases "tokenId \<in> id_tok ` set (tokens slot)")
  case False
  with assms show ?thesis by (simp add: cancelToken_def removeTokenById_absent)
next
  case True
  from removeTokenById_present [OF True] obtain a t b where
    r: "tokens slot = a @ t # b" "removeTokenById (tokens slot) tokenId = (Some t, a @ b)"
    by blast
  from assms have "distinct (map id_tok a @ id_tok t # map id_tok b
                             @ map id_tok (waitlist slot))"
    by (simp add: no_duplicates_def slot_ids_def r(1))
  then have "distinct (map id_tok a @ map id_tok b @ map id_tok (waitlist slot))"
    by (rule distinct_drop_middle)
  then have "no_duplicates (slot \<lparr> tokens := a @ b \<rparr>)"
    by (simp add: no_duplicates_def slot_ids_def)
  then show ?thesis unfolding cancelToken_removed [OF r(2)] by (rule no_duplicates_promote)
qed

lemma removeTokenById_ids:
  assumes "distinct (map id_tok toks)"
  shows "distinct (map id_tok (snd (removeTokenById toks tokenId)))
         \<and> set (map id_tok (snd (removeTokenById toks tokenId)))
             = set (map id_tok toks) - {tokenId}"
proof (cases "tokenId \<in> id_tok ` set toks")
  case False
  with assms show ?thesis by (simp add: removeTokenById_absent)
next
  case True
  from removeTokenById_present [OF True] obtain a t b where
    r: "toks = a @ t # b" "id_tok t = tokenId"
    "removeTokenById toks tokenId = (Some t, a @ b)" by blast
  from assms have "distinct (map id_tok a @ tokenId # map id_tok b)"
    by (simp add: r(1) r(2))
  then have "distinct (map id_tok a @ map id_tok b)
      \<and> set (map id_tok a @ map id_tok b)
          = set (map id_tok a @ tokenId # map id_tok b) - {tokenId}"
    by auto
  then show ?thesis unfolding r(3) by (simp add: r(1) r(2))
qed

lemma no_duplicates_push:
  assumes "no_duplicates slot" and "id_tok t \<notin> set (slot_ids slot)"
  shows "no_duplicates (slot \<lparr> tokens := tokens slot @ [t] \<rparr>)"
    and "no_duplicates (slot \<lparr> waitlist := waitlist slot @ [t] \<rparr>)"
  using distinct_push [of "map id_tok (tokens slot)" "map id_tok (waitlist slot)" "id_tok t"]
    assms
  by (simp_all add: no_duplicates_def slot_ids_def)

lemma no_duplicates_apply:
  assumes "no_duplicates slot" and "result_fresh slot result"
  shows "no_duplicates (applyAllocationResult slot result)"
proof (cases "status result")
  case ALLOCATED
  show ?thesis
  proof (cases "allocatedToken result")
    case None
    with ALLOCATED assms(1) show ?thesis by (simp add: applyAllocationResult_def)
  next
    case (Some t)
    with ALLOCATED assms(2) have "id_tok t \<notin> set (slot_ids slot)"
      by (simp add: result_fresh_def)
    from no_duplicates_push(1) [OF assms(1) this] show ?thesis
      by (simp add: applyAllocationResult_def ALLOCATED Some)
  qed
next
  case WAITLISTED
  show ?thesis
  proof (cases "allocatedToken result")
    case None
    with WAITLISTED assms(1) show ?thesis by (simp add: applyAllocationResult_def)
  next
    case (Some t)
    with WAITLISTED assms(2) have "id_tok t \<notin> set (slot_ids slot)"
      by (simp add: result_fresh_def)
    from no_duplicates_push(2) [OF assms(1) this] show ?thesis
      by (simp add: applyAllocationResult_def WAITLISTED Some)
  qed
next
  case REJECTED
  with assms show ?thesis by (simp add: applyAllocationResult_def)
next
  case DISPLACED
  show ?thesis
  proof (cases "\<exists>d t. displacedToken result = Some d \<and> allocatedToken result = Some t")
    case False
    then have "applyAllocationResult slot result = slot"
      by (cases "displacedToken result"; cases "allocatedToken result")
         (simp_all add: applyAllocationResult_def DISPLACED)
    with assms(1) show ?thesis by simp
  next
    case True
    then obtain d t where dt: "displacedToken result = Some d" "allocatedToken result = Some t"
      by blast
    let ?rest = "snd (removeTokenById (tokens slot) (id_tok d))"
    have new: "applyAllocationResult slot result
                 = slot \<lparr> tokens := ?rest @ [t], waitlist := waitlist slot @ [d] \<rparr>"
      by (simp add: applyAllocationResult_def DISPLACED dt)
    from assms(1) have dist: "distinct (map id_tok (tokens slot) @ map id_tok (waitlist slot))"
      by (simp add: no_duplicates_def slot_ids_def)
    then have dt': "distinct (map id_tok (tokens slot))" by simp
    from assms(2) have fresh:
      "id_tok t \<notin> set (map id_tok (tokens slot) @ map id_tok (waitlist slot))"
      "id_tok d \<noteq> id_tok t"
      "id_tok d \<notin> set (map id_tok (waitlist slot))"
      by (simp_all add: result_fresh_def DISPLACED dt slot_ids_def)
    from removeTokenById_ids [OF dt', of "id_tok d"] have rest:
      "distinct (map id_tok ?rest)"
      "set (map id_tok ?rest) = set (map id_tok (tokens slot)) - {id_tok d}" by blast+
    from distinct_displace [OF dist rest fresh]
    show ?thesis by (simp add: new no_duplicates_def slot_ids_def)
  qed
qed

text \<open>The decision taken for a token that is new to the slot is such a result.\<close>

lemma decision_fresh:
  assumes "no_duplicates slot" and "id_tok token \<notin> set (slot_ids slot)"
  shows "result_fresh slot (allocateTokenToSlot slot token)"
proof (cases "status (allocateTokenToSlot slot token)")
  case DISPLACED
  then obtain d where d: "findLowestPriorityMovableToken slot = Some d"
    "displacedToken (allocateTokenToSlot slot token) = Some d"
    "allocatedToken (allocateTokenToSlot slot token) = Some token"
    by (auto simp: allocateTokenToSlot_def Let_def split: if_splits)
  from findLowest_Some [OF d(1)] have "id_tok d \<in> set (map id_tok (tokens slot))" by auto
  with assms have "id_tok d \<noteq> id_tok token" "id_tok d \<notin> set (map id_tok (waitlist slot))"
    by (auto simp: no_duplicates_def slot_ids_def)
  with assms(2) show ?thesis by (simp add: result_fresh_def DISPLACED d(2,3))
next
  case ALLOCATED
  then have "allocatedToken (allocateTokenToSlot slot token) = Some token"
    by (auto simp: allocateTokenToSlot_def Let_def split: if_splits)
  with assms(2) ALLOCATED show ?thesis by (simp add: result_fresh_def)
next
  case WAITLISTED
  then have "allocatedToken (allocateTokenToSlot slot token) = Some token"
    by (auto simp: allocateTokenToSlot_def Let_def split: if_splits)
  with assms(2) WAITLISTED show ?thesis by (simp add: result_fresh_def)
next
  case REJECTED
  then show ?thesis by (simp add: result_fresh_def)
qed

lemma call_keeps_ids_distinct:
  "no_duplicates slot \<Longrightarrow> call_fresh slot c \<Longrightarrow> no_duplicates (call slot c)"
  by (cases c) (simp_all add: no_duplicates_apply no_duplicates_cancelToken markNoShow_def)

section \<open>Admission\<close>

text \<open>
  Claim C1, as stated: an emergency token, or a priority or follow-up token, whose own
  buffer is exhausted is admitted by \<^verbatim>\<open>canAllocateToken\<close> whenever the general count is
  below the general capacity. It fails on a slot that is full of emergency occupants: the
  general count is 0, below the general capacity 3, and the hard ceiling refuses the token.
\<close>

theorem overflow_refused_at_hard_max:
  "source (emergencyToken ''e6'') = TokenSource_EMERGENCY
   \<and> emergencyBuffer (capacity slot_all_emergency) \<le> getEmergencyCount slot_all_emergency
   \<and> getGeneralCount slot_all_emergency
       < max_cap (capacity slot_all_emergency)
           - emergencyBuffer (capacity slot_all_emergency)
           - priorityBuffer (capacity slot_all_emergency)
   \<and> \<not> canAllocateToken slot_all_emergency (emergencyToken ''e6'')"
  by (simp add: fixture_defs capacity_defs TokenSource_defs)

text \<open>
  Claim C1, amended: on a slot with fewer occupants than \<^verbatim>\<open>capacity.max\<close>, an emergency
  token whose buffer is exhausted, or a priority or follow-up token whose buffer is
  exhausted, is admitted whenever the general count is below
  \<^verbatim>\<open>max - emergencyBuffer - priorityBuffer\<close>.
\<close>

theorem overflow_into_general:
  assumes "hasHardCapacity slot"
    and "source token = TokenSource_EMERGENCY
           \<and> emergencyBuffer (capacity slot) \<le> getEmergencyCount slot
         \<or> (source token = TokenSource_PRIORITY \<or> source token = TokenSource_FOLLOW_UP)
           \<and> priorityBuffer (capacity slot) \<le> getPriorityCount slot"
    and "getGeneralCount slot
           < max_cap (capacity slot) - emergencyBuffer (capacity slot)
               - priorityBuffer (capacity slot)"
  shows "canAllocateToken slot token"
  using assms by (auto simp: canAllocateToken_def Let_def)

theorem overflow_into_general_witness:
  "hasHardCapacity slot_one_emergency
   \<and> source (emergencyToken ''e6'') = TokenSource_EMERGENCY
   \<and> emergencyBuffer (capacity slot_one_emergency) \<le> getEmergencyCount slot_one_emergency
   \<and> getGeneralCount slot_one_emergency
       < max_cap (capacity slot_one_emergency)
           - emergencyBuffer (capacity slot_one_emergency)
           - priorityBuffer (capacity slot_one_emergency)
   \<and> canAllocateToken slot_one_emergency (emergencyToken ''e6'')"
proof -
  have h1: "hasHardCapacity slot_one_emergency"
    by (simp add: fixture_defs capacity_defs)
  have h2: "source (emergencyToken ''e6'') = TokenSource_EMERGENCY
            \<and> emergencyBuffer (capacity slot_one_emergency)
                \<le> getEmergencyCount slot_one_emergency"
    by (simp add: fixture_defs capacity_defs)
  have h3: "getGeneralCount slot_one_emergency
       < max_cap (capacity slot_one_emergency)
           - emergencyBuffer (capacity slot_one_emergency)
           - priorityBuffer (capacity slot_one_emergency)"
    by (simp add: fixture_defs capacity_defs TokenSource_defs)
  from overflow_into_general [OF h1 disjI1 [OF h2] h3] h1 h2 h3 show ?thesis by blast
qed

text \<open>
  Claim C5: for a token of source ONLINE or WALK_IN, \<^verbatim>\<open>canAllocateToken\<close> is true exactly
  when the slot has fewer occupants than \<^verbatim>\<open>max\<close> and the general count is below
  \<^verbatim>\<open>max(0, max - emergencyBuffer - priorityBuffer)\<close>; when the two buffers add up to more
  than \<^verbatim>\<open>max\<close> the token is never admitted. The function is total, so nothing is raised.
\<close>

theorem general_admission:
  assumes "source token = TokenSource_ONLINE \<or> source token = TokenSource_WALK_IN"
  shows "canAllocateToken slot token
           = (getTotalAllocated slot < max_cap (capacity slot)
              \<and> getGeneralCount slot
                  < max 0 (max_cap (capacity slot) - emergencyBuffer (capacity slot)
                            - priorityBuffer (capacity slot)))
         \<and> (max_cap (capacity slot)
               < emergencyBuffer (capacity slot) + priorityBuffer (capacity slot)
             \<longrightarrow> \<not> canAllocateToken slot token)"
  using assms getGeneralCount_nonneg [of slot]
  by (auto simp: canAllocateToken_def hasHardCapacity_def Let_def TokenSource_defs)

theorem general_admission_witness:
  "(source (onlineToken ''t1'' PriorityLevel_MEDIUM) = TokenSource_ONLINE
    \<or> source (onlineToken ''t1'' PriorityLevel_MEDIUM) = TokenSource_WALK_IN)
   \<and> max_cap (capacity slot_oversubscribed)
       < emergencyBuffer (capacity slot_oversubscribed)
         + priorityBuffer (capacity slot_oversubscribed)
   \<and> \<not> canAllocateToken slot_oversubscribed (onlineToken ''t1'' PriorityLevel_MEDIUM)
   \<and> getTotalAllocated slot_oversubscribed < max_cap (capacity slot_oversubscribed)"
proof -
  have h1: "source (onlineToken ''t1'' PriorityLevel_MEDIUM) = TokenSource_ONLINE
    \<or> source (onlineToken ''t1'' PriorityLevel_MEDIUM) = TokenSource_WALK_IN"
    by (simp add: fixture_defs)
  have h2: "max_cap (capacity slot_oversubscribed)
       < emergencyBuffer (capacity slot_oversubscribed)
         + priorityBuffer (capacity slot_oversubscribed)"
    by (simp add: fixture_defs)
  have h3: "getTotalAllocated slot_oversubscribed < max_cap (capacity slot_oversubscribed)"
    by (simp add: fixture_defs getTotalAllocated_def)
  from general_admission [OF h1, of slot_oversubscribed] h1 h2 h3 show ?thesis by blast
qed

text \<open>
  Claim C10: \<^verbatim>\<open>canAllocateToken\<close> reads nothing of the token but its source: two tokens
  of equal source get the same answer on every slot, whatever their priority, movable
  flag, status and identifier.
\<close>

theorem admission_reads_source_only:
  "source t1 = source t2 \<Longrightarrow> canAllocateToken slot t1 = canAllocateToken slot t2"
  by (simp add: canAllocateToken_def)

theorem admission_reads_source_only_witness:
  "source (createTestToken ''a'' TokenSource_ONLINE PriorityLevel_LOW True)
     = source (createTestToken ''b'' TokenSource_ONLINE PriorityLevel_VERY_HIGH False)
   \<and> canAllocateToken slot_general_full
        (createTestToken ''a'' TokenSource_ONLINE PriorityLevel_LOW True)
     = canAllocateToken slot_general_full
        (createTestToken ''b'' TokenSource_ONLINE PriorityLevel_VERY_HIGH False)"
proof -
  have h: "source (createTestToken ''a'' TokenSource_ONLINE PriorityLevel_LOW True)
     = source (createTestToken ''b'' TokenSource_ONLINE PriorityLevel_VERY_HIGH False)"
    by (simp add: createTestToken_def)
  from admission_reads_source_only [OF h, of slot_general_full] h show ?thesis by blast
qed

section \<open>The decision\<close>

text \<open>
  Claim C3: when \<^verbatim>\<open>allocateTokenToSlot\<close> answers DISPLACED, the displaced token is an
  occupant that is movable and not of source EMERGENCY; no movable non-emergency occupant
  has a lower priority, every such occupant before it in the array has a strictly higher
  one (so it is the first of the minimal ones), and the incoming token's priority is
  strictly above the displaced token's.
\<close>

theorem displaced_is_first_lowest:
  assumes "status (allocateTokenToSlot slot token) = DISPLACED"
  shows "\<exists>d pre post. displacedToken (allocateTokenToSlot slot token) = Some d
           \<and> tokens slot = pre @ d # post
           \<and> movable d \<and> source d \<noteq> TokenSource_EMERGENCY
           \<and> (\<forall>x\<in>set pre. movable x \<and> source x \<noteq> TokenSource_EMERGENCY
                  \<longrightarrow> priority d < priority x)
           \<and> (\<forall>x\<in>set post. movable x \<and> source x \<noteq> TokenSource_EMERGENCY
                  \<longrightarrow> priority d \<le> priority x)
           \<and> priority d < priority token"
proof -
  from assms obtain d where d: "findLowestPriorityMovableToken slot = Some d"
    "priority d < priority token"
    "displacedToken (allocateTokenToSlot slot token) = Some d"
    by (auto simp: allocateTokenToSlot_def Let_def split: if_splits)
  from findLowest_Some [OF d(1)] d(2,3) show ?thesis
    unfolding displaceable_def by blast
qed

theorem displaced_is_first_lowest_witness:
  "status (allocateTokenToSlot slot_general_full (walkInToken ''t4'' PriorityLevel_HIGH))
     = DISPLACED
   \<and> displacedToken
         (allocateTokenToSlot slot_general_full (walkInToken ''t4'' PriorityLevel_HIGH))
       = Some (onlineToken ''t2'' PriorityLevel_LOW)
   \<and> (\<exists>d pre post.
         displacedToken
           (allocateTokenToSlot slot_general_full (walkInToken ''t4'' PriorityLevel_HIGH))
           = Some d
         \<and> tokens slot_general_full = pre @ d # post
         \<and> movable d \<and> source d \<noteq> TokenSource_EMERGENCY
         \<and> (\<forall>x\<in>set pre. movable x \<and> source x \<noteq> TokenSource_EMERGENCY
                \<longrightarrow> priority d < priority x)
         \<and> (\<forall>x\<in>set post. movable x \<and> source x \<noteq> TokenSource_EMERGENCY
                \<longrightarrow> priority d \<le> priority x)
         \<and> priority d < priority (walkInToken ''t4'' PriorityLevel_HIGH))"
proof -
  have h: "status (allocateTokenToSlot slot_general_full
                     (walkInToken ''t4'' PriorityLevel_HIGH)) = DISPLACED"
    by (simp add: allocateTokenToSlot_def findLowestPriorityMovableToken_def fixture_defs
        capacity_defs TokenSource_defs PriorityLevel_defs)
  have d: "displacedToken
             (allocateTokenToSlot slot_general_full (walkInToken ''t4'' PriorityLevel_HIGH))
           = Some (onlineToken ''t2'' PriorityLevel_LOW)"
    by (simp add: allocateTokenToSlot_def findLowestPriorityMovableToken_def fixture_defs
        capacity_defs TokenSource_defs PriorityLevel_defs)
  from displaced_is_first_lowest [OF h] h d show ?thesis by blast
qed

text \<open>
  Claim C9: when \<^verbatim>\<open>canAllocateToken\<close> is false and there is no displacement candidate,
  or the candidate's priority is not strictly below the token's, \<^verbatim>\<open>allocateTokenToSlot\<close>
  answers WAITLISTED if the token's priority is at least 40 (MEDIUM) and REJECTED otherwise.
\<close>

theorem waitlisted_or_rejected:
  assumes "\<not> canAllocateToken slot token"
    and "findLowestPriorityMovableToken slot = None
         \<or> (\<exists>c. findLowestPriorityMovableToken slot = Some c
                \<and> \<not> priority c < priority token)"
  shows "status (allocateTokenToSlot slot token)
           = (if 40 \<le> priority token then WAITLISTED else REJECTED)"
  using assms by (auto simp: allocateTokenToSlot_def Let_def PriorityLevel_MEDIUM_def)

theorem waitlisted_or_rejected_witness:
  "\<not> canAllocateToken slot_emergency_only (onlineToken ''t1'' PriorityLevel_MEDIUM)
   \<and> findLowestPriorityMovableToken slot_emergency_only = None
   \<and> status (allocateTokenToSlot slot_emergency_only (onlineToken ''t1'' PriorityLevel_MEDIUM))
       = WAITLISTED"
proof -
  have h1: "\<not> canAllocateToken slot_emergency_only (onlineToken ''t1'' PriorityLevel_MEDIUM)"
    by (simp add: fixture_defs capacity_defs)
  have h2: "findLowestPriorityMovableToken slot_emergency_only = None"
    by (simp add: findLowestPriorityMovableToken_def fixture_defs)
  have p: "priority (onlineToken ''t1'' PriorityLevel_MEDIUM) = 40"
    by (simp add: fixture_defs PriorityLevel_defs)
  from waitlisted_or_rejected [OF h1 disjI1 [OF h2]] h1 h2 p show ?thesis by simp
qed

text \<open>
  Claim C6, as stated: a token whose source is none of the five known ones is refused by
  \<^verbatim>\<open>canAllocateToken\<close>, and \<^verbatim>\<open>allocateTokenToSlot\<close> answers REJECTED or WAITLISTED for
  it, never ALLOCATED or DISPLACED. The second half fails: the displacement step does not
  look at the source, so a token of source "VIP" and priority 60 displaces a movable
  ONLINE occupant of priority 20.
\<close>

theorem unknown_source_displaces:
  "source vipToken \<notin> {TokenSource_ONLINE, TokenSource_WALK_IN, TokenSource_PRIORITY,
                         TokenSource_FOLLOW_UP, TokenSource_EMERGENCY}
   \<and> \<not> canAllocateToken slot_one_low vipToken
   \<and> status (allocateTokenToSlot slot_one_low vipToken) = DISPLACED"
  by (simp add: allocateTokenToSlot_def findLowestPriorityMovableToken_def fixture_defs
      capacity_defs TokenSource_defs PriorityLevel_defs)

text \<open>
  Claim C6, amended: a token whose source is none of the five known ones is refused by
  \<^verbatim>\<open>canAllocateToken\<close>, and \<^verbatim>\<open>allocateTokenToSlot\<close> never answers ALLOCATED for it; it
  answers DISPLACED exactly when some movable non-emergency occupant has a priority
  strictly below the token's, and otherwise WAITLISTED (priority at least 40) or REJECTED.
\<close>

theorem unknown_source_never_allocated:
  assumes "source token \<notin> {TokenSource_ONLINE, TokenSource_WALK_IN, TokenSource_PRIORITY,
                             TokenSource_FOLLOW_UP, TokenSource_EMERGENCY}"
  shows "\<not> canAllocateToken slot token
         \<and> status (allocateTokenToSlot slot token) \<noteq> ALLOCATED
         \<and> (status (allocateTokenToSlot slot token) = DISPLACED
              \<longleftrightarrow> (\<exists>x\<in>set (tokens slot). movable x \<and> source x \<noteq> TokenSource_EMERGENCY
                         \<and> priority x < priority token))
         \<and> (status (allocateTokenToSlot slot token) \<noteq> DISPLACED
              \<longrightarrow> status (allocateTokenToSlot slot token)
                    = (if 40 \<le> priority token then WAITLISTED else REJECTED))"
proof -
  have no: "\<not> canAllocateToken slot token"
    using assms by (simp add: canAllocateToken_def Let_def)
  then have a: "status (allocateTokenToSlot slot token) \<noteq> ALLOCATED"
    by (simp add: status_ALLOCATED_iff)
  have d: "status (allocateTokenToSlot slot token) = DISPLACED
              \<longleftrightarrow> (\<exists>x\<in>set (tokens slot). movable x \<and> source x \<noteq> TokenSource_EMERGENCY
                         \<and> priority x < priority token)"
    using no findLowest_beats_iff [of slot token]
    by (simp add: status_DISPLACED_iff displaceable_def)
  have r: "status (allocateTokenToSlot slot token) \<noteq> DISPLACED
              \<longrightarrow> status (allocateTokenToSlot slot token)
                    = (if 40 \<le> priority token then WAITLISTED else REJECTED)"
    using no by (auto simp: allocateTokenToSlot_def Let_def PriorityLevel_MEDIUM_def)
  from no a d r show ?thesis by blast
qed

theorem unknown_source_never_allocated_witness:
  "source vipToken \<notin> {TokenSource_ONLINE, TokenSource_WALK_IN, TokenSource_PRIORITY,
                         TokenSource_FOLLOW_UP, TokenSource_EMERGENCY}
   \<and> \<not> canAllocateToken slot_emergency_only vipToken
   \<and> status (allocateTokenToSlot slot_emergency_only vipToken) \<noteq> DISPLACED
   \<and> status (allocateTokenToSlot slot_emergency_only vipToken) = WAITLISTED"
proof -
  have h: "source vipToken \<notin> {TokenSource_ONLINE, TokenSource_WALK_IN, TokenSource_PRIORITY,
                         TokenSource_FOLLOW_UP, TokenSource_EMERGENCY}"
    by (simp add: fixture_defs TokenSource_defs)
  have nd: "\<not> (\<exists>x\<in>set (tokens slot_emergency_only).
               movable x \<and> source x \<noteq> TokenSource_EMERGENCY
               \<and> priority x < priority vipToken)"
    by (simp add: fixture_defs)
  have p: "(40::int) \<le> priority vipToken"
    by (simp add: fixture_defs PriorityLevel_defs)
  from unknown_source_never_allocated [OF h, of slot_emergency_only] h nd p
  show ?thesis by simp
qed

section \<open>The mutator\<close>

text \<open>
  Claim C7: when \<^verbatim>\<open>cancelToken\<close> (or \<^verbatim>\<open>markNoShow\<close>) is given the identifier of an
  occupant and the waitlist is not empty, the first occupant with that identifier leaves,
  and the token appended to the occupants is the waitlist entry of maximal priority, the
  one nearest the front among equals; that entry leaves the waitlist and nothing else of
  the slot changes.
\<close>

theorem cancel_promotes_highest:
  assumes "tokenId \<in> id_tok ` set (tokens slot)" and "waitlist slot \<noteq> []"
  shows "\<exists>a t b pre w post.
           tokens slot = a @ t # b \<and> id_tok t = tokenId
           \<and> (\<forall>y\<in>set a. id_tok y \<noteq> tokenId)
           \<and> waitlist slot = pre @ w # post
           \<and> (\<forall>x\<in>set pre. priority x < priority w)
           \<and> (\<forall>x\<in>set post. priority x \<le> priority w)
           \<and> cancelToken slot tokenId
               = slot \<lparr> tokens := a @ b @ [w], waitlist := pre @ post \<rparr>
           \<and> markNoShow slot tokenId = cancelToken slot tokenId"
proof -
  from removeTokenById_present [OF assms(1)] obtain a t b where
    r: "tokens slot = a @ t # b" "id_tok t = tokenId" "\<forall>y\<in>set a. id_tok y \<noteq> tokenId"
    "removeTokenById (tokens slot) tokenId = (Some t, a @ b)" by blast
  let ?s = "slot \<lparr> tokens := a @ b \<rparr>"
  have "waitlist ?s \<noteq> []" using assms(2) by simp
  from promoteFromWaitlist_split [OF this] obtain pre w post where
    p: "waitlist slot = pre @ w # post"
    "\<forall>x\<in>set pre. priority x < priority w" "\<forall>x\<in>set post. priority x \<le> priority w"
    "promoteFromWaitlist ?s = ?s \<lparr> waitlist := pre @ post, tokens := tokens ?s @ [w] \<rparr>"
    by auto
  have "cancelToken slot tokenId = slot \<lparr> tokens := a @ b @ [w], waitlist := pre @ post \<rparr>"
    unfolding cancelToken_def r(4) using p(4) by simp
  with r p show ?thesis unfolding markNoShow_def by blast
qed

theorem cancel_promotes_highest_witness:
  "''active'' \<in> id_tok ` set (tokens slot_with_waitlist)
   \<and> waitlist slot_with_waitlist \<noteq> []
   \<and> cancelToken slot_with_waitlist ''active''
       = createTestSlot [walkInToken ''wait-high'' PriorityLevel_VERY_HIGH]
           [walkInToken ''wait-low'' PriorityLevel_LOW] defaultCapacity
   \<and> (\<exists>a t b pre w post.
         tokens slot_with_waitlist = a @ t # b \<and> id_tok t = ''active''
         \<and> (\<forall>y\<in>set a. id_tok y \<noteq> ''active'')
         \<and> waitlist slot_with_waitlist = pre @ w # post
         \<and> (\<forall>x\<in>set pre. priority x < priority w)
         \<and> (\<forall>x\<in>set post. priority x \<le> priority w)
         \<and> cancelToken slot_with_waitlist ''active''
             = slot_with_waitlist \<lparr> tokens := a @ b @ [w], waitlist := pre @ post \<rparr>
         \<and> markNoShow slot_with_waitlist ''active''
             = cancelToken slot_with_waitlist ''active'')"
proof -
  have h1: "''active'' \<in> id_tok ` set (tokens slot_with_waitlist)"
    by (simp add: fixture_defs)
  have h2: "waitlist slot_with_waitlist \<noteq> []"
    by (simp add: fixture_defs)
  have r: "cancelToken slot_with_waitlist ''active''
             = createTestSlot [walkInToken ''wait-high'' PriorityLevel_VERY_HIGH]
                 [walkInToken ''wait-low'' PriorityLevel_LOW] defaultCapacity"
    by (simp add: cancelToken_def removeTokenById_def promoteFromWaitlist_def
        findHighestPriorityIndex_def highest_loop.simps splice1_def fixture_defs
        PriorityLevel_defs Let_def)
  from cancel_promotes_highest [OF h1 h2] h1 h2 r show ?thesis by blast
qed

text \<open>
  Claim C8: when the identifier is not that of an occupant, also when it is that of a
  waiting token, \<^verbatim>\<open>cancelToken\<close> and \<^verbatim>\<open>markNoShow\<close> return the slot as it was: nothing is
  removed and nothing is promoted. On every input \<^verbatim>\<open>markNoShow\<close> does what
  \<^verbatim>\<open>cancelToken\<close> does.
\<close>

theorem cancel_absent_is_noop:
  assumes "tokenId \<notin> id_tok ` set (tokens slot)"
  shows "cancelToken slot tokenId = slot \<and> markNoShow slot tokenId = slot
         \<and> (\<forall>s i. markNoShow s i = cancelToken s i)"
  using assms by (simp add: cancelToken_def markNoShow_def removeTokenById_absent)

theorem cancel_absent_is_noop_witness:
  "''wait-high'' \<notin> id_tok ` set (tokens slot_with_waitlist)
   \<and> ''wait-high'' \<in> id_tok ` set (waitlist slot_with_waitlist)
   \<and> cancelToken slot_with_waitlist ''wait-high'' = slot_with_waitlist
   \<and> markNoShow slot_with_waitlist ''wait-high'' = slot_with_waitlist"
proof -
  have h: "''wait-high'' \<notin> id_tok ` set (tokens slot_with_waitlist)"
    by (simp add: fixture_defs)
  have w: "''wait-high'' \<in> id_tok ` set (waitlist slot_with_waitlist)"
    by (simp add: fixture_defs)
  from cancel_absent_is_noop [OF h] h w show ?thesis by blast
qed

text \<open>
  Claim C4: a slot with at most \<^verbatim>\<open>capacity.max\<close> occupants still has at most that many
  after \<^verbatim>\<open>applyAllocationResult\<close> of the decision that \<^verbatim>\<open>allocateTokenToSlot\<close> takes on
  the slot as it is, and after any \<^verbatim>\<open>cancelToken\<close> or \<^verbatim>\<open>markNoShow\<close>.
\<close>

theorem within_max_preserved:
  assumes "within_max slot"
  shows "within_max (applyAllocationResult slot (allocateTokenToSlot slot token))
         \<and> within_max (cancelToken slot tokenId)
         \<and> within_max (markNoShow slot tokenId)"
proof -
  have "within_max (applyAllocationResult slot (allocateTokenToSlot slot token))"
    using apply_decision_length [OF assms, of token]
    by (simp add: within_max_def getTotalAllocated_def applyAllocationResult_capacity)
  moreover have "within_max (cancelToken slot tokenId)"
    using assms cancelToken_length [of slot tokenId]
    by (simp add: within_max_def getTotalAllocated_def cancelToken_capacity)
  ultimately show ?thesis by (simp add: markNoShow_def)
qed

theorem within_max_preserved_witness:
  "within_max slot_general_full
   \<and> within_max (applyAllocationResult slot_general_full
        (allocateTokenToSlot slot_general_full (walkInToken ''t4'' PriorityLevel_HIGH)))
   \<and> within_max (cancelToken slot_general_full ''t2'')
   \<and> within_max (markNoShow slot_general_full ''t2'')"
proof -
  have h: "within_max slot_general_full"
    by (simp add: within_max_def getTotalAllocated_def fixture_defs)
  from within_max_preserved [OF h] h show ?thesis by blast
qed

text \<open>
  Claim C2, as stated: from a slot without duplicate identifiers, no sequence of
  \<^verbatim>\<open>applyAllocationResult\<close> (with arbitrary results), \<^verbatim>\<open>cancelToken\<close> and \<^verbatim>\<open>markNoShow\<close>
  produces a duplicate. It fails: applying twice the ALLOCATED decision taken on the empty
  slot appends the token twice.
\<close>

theorem apply_twice_duplicates:
  "no_duplicates slot_empty
   \<and> \<not> no_duplicates
        (calls slot_empty
          [Apply (allocateTokenToSlot slot_empty (onlineToken ''t1'' PriorityLevel_MEDIUM)),
           Apply (allocateTokenToSlot slot_empty (onlineToken ''t1'' PriorityLevel_MEDIUM))])"
  by (simp add: no_duplicates_def slot_ids_def applyAllocationResult_def
      allocateTokenToSlot_def fixture_defs capacity_defs TokenSource_defs)

text \<open>
  Claim C2, amended: from a slot without duplicate identifiers, a sequence of
  \<^verbatim>\<open>applyAllocationResult\<close>, \<^verbatim>\<open>cancelToken\<close> and \<^verbatim>\<open>markNoShow\<close> calls produces no
  duplicate, provided each applied result brings only identifiers that are new to the
  slot at that moment: its incoming token is in neither array, and its displaced token is
  not the incoming one and not already waiting.
\<close>

theorem no_duplicates_calls:
  "no_duplicates slot \<Longrightarrow> calls_fresh slot cs \<Longrightarrow> no_duplicates (calls slot cs)"
proof (induction cs arbitrary: slot)
  case Nil
  then show ?case by simp
next
  case (Cons c cs)
  from Cons.prems have "no_duplicates (call slot c)" "calls_fresh (call slot c) cs"
    by (simp_all add: call_keeps_ids_distinct)
  then show ?case using Cons.IH by simp
qed

theorem no_duplicates_calls_witness:
  "no_duplicates slot_t1_t2
   \<and> calls_fresh slot_t1_t2 [Apply displace_t1_by_t3, Cancel ''t3'']
   \<and> no_duplicates (calls slot_t1_t2 [Apply displace_t1_by_t3, Cancel ''t3''])"
proof -
  have h1: "no_duplicates slot_t1_t2"
    by (simp add: no_duplicates_def slot_ids_def fixture_defs)
  have h2: "calls_fresh slot_t1_t2 [Apply displace_t1_by_t3, Cancel ''t3'']"
    by (simp add: result_fresh_def slot_ids_def fixture_defs)
  from no_duplicates_calls [OF h1 h2] h1 h2 show ?thesis by blast
qed

end
